theory Spec2Isabelle
  imports Complex_Main
begin

section \<open>Python values and built-ins used by the two modules\<close>

text \<open>
  The exceptions the modelled code can raise. A function that can raise returns
  \<open>error + 'a\<close>, with \<open>Inl\<close> for the exception.
\<close>

datatype error = ValueError | AttributeError | ZeroDivisionError | IndexError

text \<open>
  Strings are \<open>char list\<close>. The case conversions of \<open>str\<close> are modelled on the
  ASCII letters; every other character is left as it is.
\<close>

definition lower_letters :: string where
  "lower_letters = ''abcdefghijklmnopqrstuvwxyz''"

definition upper_letters :: string where
  "upper_letters = ''ABCDEFGHIJKLMNOPQRSTUVWXYZ''"

definition ascii_upper :: "char \<Rightarrow> char" where
  "ascii_upper c = (case map_of (zip lower_letters upper_letters) c of Some u \<Rightarrow> u | None \<Rightarrow> c)"

definition ascii_lower :: "char \<Rightarrow> char" where
  "ascii_lower c = (case map_of (zip upper_letters lower_letters) c of Some l \<Rightarrow> l | None \<Rightarrow> c)"

text \<open>\<^verbatim>\<open>s.upper()\<close>\<close>

definition py_upper :: "string \<Rightarrow> string" where
  "py_upper s = map ascii_upper s"

text \<open>\<^verbatim>\<open>s.capitalize()\<close>: the first character upper-cased, all the others lower-cased.\<close>

definition capitalize :: "string \<Rightarrow> string" where
  "capitalize s = (case s of [] \<Rightarrow> [] | c # cs \<Rightarrow> ascii_upper c # map ascii_lower cs)"

text \<open>\<^verbatim>\<open>s.split(sep)\<close> for a separator of one character; the result is never empty.\<close>

fun split :: "char \<Rightarrow> string \<Rightarrow> string list" where
  "split sep [] = [[]]"
| "split sep (c # cs) =
     (if c = sep then [] # split sep cs
      else (case split sep cs of [] \<Rightarrow> [[c]] | w # ws \<Rightarrow> (c # w) # ws))"

text \<open>\<^verbatim>\<open>xs[0]\<close> and \<^verbatim>\<open>xs[-1]\<close>, which raise IndexError on the empty list.\<close>

definition index_first :: "'a list \<Rightarrow> error + 'a" where
  "index_first xs = (case xs of [] \<Rightarrow> Inl IndexError | x # _ \<Rightarrow> Inr x)"

definition index_last :: "'a list \<Rightarrow> error + 'a" where
  "index_last xs = (case rev xs of [] \<Rightarrow> Inl IndexError | x # _ \<Rightarrow> Inr x)"

text \<open>\<^verbatim>\<open>s.replace(a, b)\<close> for single characters.\<close>

definition replace :: "char \<Rightarrow> char \<Rightarrow> string \<Rightarrow> string" where
  "replace a b s = map (\<lambda>c. if c = a then b else c) s"

text \<open>\<^verbatim>\<open>sep.join(xs)\<close>\<close>

fun join :: "string \<Rightarrow> string list \<Rightarrow> string" where
  "join sep [] = []"
| "join sep [x] = x"
| "join sep (x # y # ys) = x @ sep @ join sep (y # ys)"

text \<open>\<^verbatim>\<open>str(i)\<close> of an integer: its decimal digits, with a minus sign when negative.\<close>

definition digit_chars :: string where
  "digit_chars = ''0123456789''"

fun digits_of_nat :: "nat \<Rightarrow> string" where
  "digits_of_nat n =
     (if n < 10 then [digit_chars ! n]
      else digits_of_nat (n div 10) @ [digit_chars ! (n mod 10)])"

declare digits_of_nat.simps [simp del]

definition str_int :: "int \<Rightarrow> string" where
  "str_int i = (if i < 0 then CHR ''-'' # digits_of_nat (nat (- i)) else digits_of_nat (nat i))"

text \<open>
  \<^verbatim>\<open>int(s)\<close> of a string, in base ten: white space around the number is dropped, one
  sign may come first, and single underscores may stand between digits; anything else
  raises ValueError. (ASCII only; the limit on the number of digits is left out.)
\<close>

definition digit_value :: "char \<Rightarrow> nat option" where
  "digit_value c = map_of (zip digit_chars [0 ..< 10]) c"

definition whitespace_chars :: string where
  "whitespace_chars = [CHR '' '', CHR 0x09, CHR 0x0A, CHR 0x0B, CHR 0x0C, CHR 0x0D, CHR 0x1C, CHR 0x1D, CHR 0x1E, CHR 0x1F]"

definition strip :: "string \<Rightarrow> string" where
  "strip s = rev (dropWhile (\<lambda>c. c \<in> set whitespace_chars) (rev (dropWhile (\<lambda>c. c \<in> set whitespace_chars) s)))"

fun parse_digits :: "string \<Rightarrow> int \<Rightarrow> int option" where
  "parse_digits [] acc = Some acc"
| "parse_digits (c # cs) acc =
     (case digit_value c of
        Some d \<Rightarrow> parse_digits cs (acc * 10 + int d)
      | None \<Rightarrow>
          (if c = CHR ''_'' then
             (case cs of
                [] \<Rightarrow> None
              | c' # cs' \<Rightarrow>
                  (case digit_value c' of
                     Some d \<Rightarrow> parse_digits cs' (acc * 10 + int d)
                   | None \<Rightarrow> None))
           else None))"

definition parse_unsigned :: "string \<Rightarrow> int option" where
  "parse_unsigned s =
     (case s of
        [] \<Rightarrow> None
      | c # cs \<Rightarrow> (case digit_value c of Some d \<Rightarrow> parse_digits cs (int d) | None \<Rightarrow> None))"

definition py_int :: "string \<Rightarrow> error + int" where
  "py_int s =
     (let t = strip s;
          (negative, body) =
             (case t of
                [] \<Rightarrow> (False, t)
              | c # cs \<Rightarrow> if c = CHR ''-'' then (True, cs) else if c = CHR ''+'' then (False, cs) else (False, t))
      in case parse_unsigned body of
           None \<Rightarrow> Inl ValueError
         | Some v \<Rightarrow> Inr (if negative then - v else v))"

text \<open>True division \<^verbatim>\<open>a / b\<close> of two integers.\<close>

definition truediv :: "int \<Rightarrow> int \<Rightarrow> error + rat" where
  "truediv a b = (if b = 0 then Inl ZeroDivisionError else Inr (of_int a / of_int b))"

text \<open>The number a string of digits stands for, read after the value \<open>acc\<close>.\<close>

fun nat_of_digits :: "string \<Rightarrow> nat \<Rightarrow> nat" where
  "nat_of_digits [] acc = acc"
| "nat_of_digits (c # cs) acc = nat_of_digits cs (acc * 10 + (case digit_value c of Some d \<Rightarrow> d | None \<Rightarrow> 0))"

section \<open>The data model\<close>

text \<open>
  \<^verbatim>\<open>CoverageGap\<close> of \<^verbatim>\<open>coverage_parser.py\<close>. \<^verbatim>\<open>method_name\<close> is declared
  \<^verbatim>\<open>Optional[str]\<close>. The percentages are Python floats; they are modelled by the exact
  rational value of the expression that computes them.
\<close>

record coverage_gap =
  class_name :: string
  method_name :: "string option"
  package_name :: string
  line_coverage :: rat
  branch_coverage :: rat
  uncovered_lines :: "int list"

text \<open>
  \<^verbatim>\<open>GeneratedTest\<close> of \<^verbatim>\<open>test_generator.py\<close>. Its field \<^verbatim>\<open>class_name\<close> is called
  \<open>test_class_name\<close> here, to keep it apart from the field of the gap.
\<close>

record generated_test =
  test_class_name :: string
  test_method_name :: string
  test_code :: string
  target_class :: string
  target_method :: "string option"

section \<open>The test generator\<close>

text \<open>\<^verbatim>\<open>_get_test_class_name\<close>\<close>

definition get_test_class_name :: "string \<Rightarrow> error + string" where
  "get_test_class_name target =
     (case index_last (split CHR ''.'' target) of
        Inl e \<Rightarrow> Inl e
      | Inr simple_name \<Rightarrow> Inr (simple_name @ ''Test''))"

text \<open>The three f-string templates of \<^verbatim>\<open>_generate_test_code\<close>.\<close>

definition template_case1 :: "string \<Rightarrow> string \<Rightarrow> string" where
  "template_case1 mname cname =
     ''    @Test\<newline>'' @
     ''    public void test'' @ capitalize mname @ ''Case1() {\<newline>'' @
     ''        '' @ cname @ '' instance = new '' @ cname @ ''();\<newline>'' @
     ''        assertNotNull(instance);\<newline>'' @
     ''        \<newline>'' @
     ''        instance.'' @ mname @ ''();\<newline>'' @
     ''        \<newline>'' @
     ''        assertEquals(instance, instance);\<newline>'' @
     ''    }''"

definition template_case2 :: "string \<Rightarrow> string \<Rightarrow> string" where
  "template_case2 mname cname =
     ''    @Test\<newline>'' @
     ''    public void test'' @ capitalize mname @ ''Case2() {\<newline>'' @
     ''        '' @ cname @ '' instance = new '' @ cname @ ''();\<newline>'' @
     ''        \<newline>'' @
     ''        assertDoesNotThrow(() -> {\<newline>'' @
     ''            instance.'' @ mname @ ''();\<newline>'' @
     ''        });\<newline>'' @
     ''        \<newline>'' @
     ''        assertNotNull(instance);\<newline>'' @
     ''    }''"

definition template_case3 :: "string \<Rightarrow> string \<Rightarrow> string" where
  "template_case3 mname cname =
     ''    @Test\<newline>'' @
     ''    public void test'' @ capitalize mname @ ''Case3() {\<newline>'' @
     ''        '' @ cname @ '' instance = new '' @ cname @ ''();\<newline>'' @
     ''        instance.'' @ mname @ ''();\<newline>'' @
     ''        \<newline>'' @
     ''        Object result = instance;\<newline>'' @
     ''        assertNotNull(result);\<newline>'' @
     ''        assertTrue(result instanceof '' @ cname @ '');\<newline>'' @
     ''    }''"

text \<open>
  \<^verbatim>\<open>_generate_test_code\<close>. \<^verbatim>\<open>gap.method_name.split("(")\<close> raises AttributeError
  when \<^verbatim>\<open>method_name\<close> is None.
\<close>

definition generate_test_code :: "coverage_gap \<Rightarrow> nat \<Rightarrow> error + string" where
  "generate_test_code gap test_index =
     (case method_name gap of
        None \<Rightarrow> Inl AttributeError
      | Some signature \<Rightarrow>
          (case index_first (split CHR ''('' signature) of
             Inl e \<Rightarrow> Inl e
           | Inr mname \<Rightarrow>
               (case index_last (split CHR ''.'' (class_name gap)) of
                  Inl e \<Rightarrow> Inl e
                | Inr class_simple_name \<Rightarrow>
                    Inr (if test_index = 0 then template_case1 mname class_simple_name
                         else if test_index = 1 then template_case2 mname class_simple_name
                         else template_case3 mname class_simple_name))))"

text \<open>The body of the loop of \<^verbatim>\<open>_generate_tests_for_method\<close>, for the index \<open>i\<close>.\<close>

definition generate_case :: "coverage_gap \<Rightarrow> string \<Rightarrow> nat \<Rightarrow> error + generated_test" where
  "generate_case gap tcn i =
     (case method_name gap of
        None \<Rightarrow> Inl AttributeError
      | Some signature \<Rightarrow>
          (case index_first (split CHR ''('' signature) of
             Inl e \<Rightarrow> Inl e
           | Inr mname \<Rightarrow>
               (case generate_test_code gap i of
                  Inl e \<Rightarrow> Inl e
                | Inr code \<Rightarrow>
                    Inr \<lparr> test_class_name = tcn,
                          test_method_name = ''test'' @ capitalize mname @ ''_Case'' @ str_int (int i + 1),
                          test_code = code,
                          target_class = class_name gap,
                          target_method = method_name gap \<rparr>)))"

text \<open>
  The loop \<^verbatim>\<open>for i in range(num_tests)\<close>, over the indices still to visit, with the
  list \<^verbatim>\<open>tests\<close> built so far.
\<close>

fun cases_loop :: "coverage_gap \<Rightarrow> string \<Rightarrow> nat list \<Rightarrow> generated_test list \<Rightarrow> error + generated_test list" where
  "cases_loop gap tcn [] tests = Inr tests"
| "cases_loop gap tcn (i # is) tests =
     (case generate_case gap tcn i of
        Inl e \<Rightarrow> Inl e
      | Inr t \<Rightarrow> cases_loop gap tcn is (tests @ [t]))"

text \<open>\<^verbatim>\<open>_generate_tests_for_method\<close>; \<^verbatim>\<open>range(n)\<close> is empty for \<open>n \<le> 0\<close>.\<close>

definition generate_tests_for_method :: "coverage_gap \<Rightarrow> int \<Rightarrow> error + generated_test list" where
  "generate_tests_for_method gap num_tests =
     (case get_test_class_name (class_name gap) of
        Inl e \<Rightarrow> Inl e
      | Inr tcn \<Rightarrow> cases_loop gap tcn [0 ..< nat num_tests] [])"

text \<open>The loop of \<^verbatim>\<open>generate_tests\<close> over \<^verbatim>\<open>gaps[:10]\<close>.\<close>

fun gaps_loop :: "coverage_gap list \<Rightarrow> int \<Rightarrow> generated_test list \<Rightarrow> error + generated_test list" where
  "gaps_loop [] max_tests_per_gap tests = Inr tests"
| "gaps_loop (gap # rest) max_tests_per_gap tests =
     (case generate_tests_for_method gap max_tests_per_gap of
        Inl e \<Rightarrow> Inl e
      | Inr method_tests \<Rightarrow> gaps_loop rest max_tests_per_gap (tests @ method_tests))"

definition generate_tests :: "coverage_gap list \<Rightarrow> int \<Rightarrow> error + generated_test list" where
  "generate_tests gaps max_tests_per_gap = gaps_loop (take 10 gaps) max_tests_per_gap []"

text \<open>
  A Python dict keeps its keys in the order of their first insertion; storing under a
  key that is present replaces the value and leaves the position.
\<close>

fun dict_set :: "('k \<times> 'v) list \<Rightarrow> 'k \<Rightarrow> 'v \<Rightarrow> ('k \<times> 'v) list" where
  "dict_set [] k v = [(k, v)]"
| "dict_set ((k', v') # kvs) k v =
     (if k' = k then (k', v) # kvs else (k', v') # dict_set kvs k v)"

text \<open>The comprehension \<^verbatim>\<open>{t.test_method_name: t for t in tests}\<close>.\<close>

definition unique_tests :: "generated_test list \<Rightarrow> (string \<times> generated_test) list" where
  "unique_tests tests = foldl (\<lambda>d t. dict_set d (test_method_name t) t) [] tests"

definition file_header :: "string \<Rightarrow> string \<Rightarrow> string" where
  "file_header tcn pkg =
     ''package '' @ pkg @ ''.test;\<newline>'' @
     ''\<newline>'' @
     ''import org.junit.jupiter.api.Test;\<newline>'' @
     ''import org.junit.jupiter.api.BeforeEach;\<newline>'' @
     ''import static org.junit.jupiter.api.Assertions.*;\<newline>'' @
     ''import '' @ pkg @ ''.*;\<newline>'' @
     ''\<newline>'' @
     ''public class '' @ tcn @ '' {\<newline>'' @
     ''    \<newline>'' @
     ''    private Object instance;\<newline>'' @
     ''    \<newline>'' @
     ''    @BeforeEach\<newline>'' @
     ''    public void setUp() {\<newline>'' @
     ''        // Initialize test fixtures\<newline>'' @
     ''    }\<newline>'' @
     ''    \<newline>''"

definition file_footer :: string where
  "file_footer = ''\<newline>}\<newline>''"

text \<open>\<^verbatim>\<open>format_test_file\<close>\<close>

definition format_test_file :: "string \<Rightarrow> string \<Rightarrow> generated_test list \<Rightarrow> string" where
  "format_test_file tcn pkg tests =
     (let test_methods = join ''\<newline>\<newline>'' (map (\<lambda>(k, t). test_code t) (unique_tests tests))
      in file_header tcn pkg @ test_methods @ file_footer)"

section \<open>The report parser\<close>

text \<open>
  An element of the tree that \<^verbatim>\<open>ElementTree\<close> builds: its tag, its attributes and its
  children in document order. The model starts from the root element that
  \<^verbatim>\<open>ET.parse(xml_path).getroot()\<close> returns.
\<close>

datatype element = Element (tag: string) (attrib: "(string \<times> string) list") (children: "element list")

text \<open>
  \<^verbatim>\<open>e.get(key)\<close>, then \<^verbatim>\<open>e.get(key, "")\<close>, then \<^verbatim>\<open>int(e.get(key, 0))\<close>, where the
  default \<open>0\<close> is an integer already.
\<close>

definition get :: "element \<Rightarrow> string \<Rightarrow> string option" where
  "get e key = map_of (attrib e) key"

definition get_str :: "element \<Rightarrow> string \<Rightarrow> string" where
  "get_str e key = (case get e key of None \<Rightarrow> [] | Some v \<Rightarrow> v)"

definition get_int :: "element \<Rightarrow> string \<Rightarrow> error + int" where
  "get_int e key = (case get e key of None \<Rightarrow> Inr 0 | Some v \<Rightarrow> py_int v)"

text \<open>
  \<^verbatim>\<open>e.iter()\<close>: the element and all its descendants, in document order. Then
  \<^verbatim>\<open>e.findall("tag")\<close>, the children with that tag, and \<^verbatim>\<open>e.findall(".//tag")\<close>, the
  descendants at every depth with that tag.
\<close>

fun iter :: "element \<Rightarrow> element list" where
  "iter (Element t a cs) = Element t a cs # concat (map iter cs)"

definition findall :: "string \<Rightarrow> element \<Rightarrow> element list" where
  "findall tg e = filter (\<lambda>c. tag c = tg) (children e)"

definition findall_descendants :: "string \<Rightarrow> element \<Rightarrow> element list" where
  "findall_descendants tg e = filter (\<lambda>c. tag c = tg) (concat (map iter (children e)))"

text \<open>
  \<^verbatim>\<open>_get_coverage_percent\<close>: the loop over the counter children returns at the first
  counter of the given type whose total is positive.
\<close>

fun counters_loop :: "element list \<Rightarrow> string \<Rightarrow> error + rat" where
  "counters_loop [] ty = Inr 0"
| "counters_loop (counter # rest) ty =
     (if get counter ''type'' = Some ty then
        (case get_int counter ''covered'' of
           Inl e \<Rightarrow> Inl e
         | Inr covered \<Rightarrow>
             (case get_int counter ''missed'' of
                Inl e \<Rightarrow> Inl e
              | Inr missed \<Rightarrow>
                  (let total = covered + missed in
                   if total > 0 then
                     (case truediv covered total of Inl e \<Rightarrow> Inl e | Inr q \<Rightarrow> Inr (q * 100))
                   else counters_loop rest ty)))
      else counters_loop rest ty)"

definition get_coverage_percent :: "element \<Rightarrow> string \<Rightarrow> error + rat" where
  "get_coverage_percent element counter_type =
     counters_loop (findall ''counter'' element) (py_upper counter_type)"

text \<open>\<^verbatim>\<open>_get_uncovered_lines\<close>\<close>

fun lines_loop :: "element list \<Rightarrow> int list \<Rightarrow> error + int list" where
  "lines_loop [] uncovered = Inr uncovered"
| "lines_loop (line # rest) uncovered =
     (case get_int line ''nr'' of
        Inl e \<Rightarrow> Inl e
      | Inr line_num \<Rightarrow>
          (case get_int line ''ci'' of
             Inl e \<Rightarrow> Inl e
           | Inr ci \<Rightarrow> lines_loop rest (if ci = 0 then uncovered @ [line_num] else uncovered)))"

definition get_uncovered_lines :: "element \<Rightarrow> error + int list" where
  "get_uncovered_lines method_element = lines_loop (findall ''line'' method_element) []"

text \<open>
  The three variables that the loops of \<^verbatim>\<open>parse_report\<close> update: \<^verbatim>\<open>gaps\<close>,
  \<^verbatim>\<open>total_line_coverage\<close> and \<^verbatim>\<open>total_branch_coverage\<close>.
\<close>

record parse_state =
  gaps_so_far :: "coverage_gap list"
  total_line :: rat
  total_branch :: rat

text \<open>The loop over the methods of one class.\<close>

fun methods_loop :: "string \<Rightarrow> string \<Rightarrow> element list \<Rightarrow> coverage_gap list \<Rightarrow> error + coverage_gap list" where
  "methods_loop pname full_class [] gaps = Inr gaps"
| "methods_loop pname full_class (method # rest) gaps =
     (case get_coverage_percent method ''line'' of
        Inl e \<Rightarrow> Inl e
      | Inr line_cov \<Rightarrow>
          (case get_coverage_percent method ''branch'' of
             Inl e \<Rightarrow> Inl e
           | Inr branch_cov \<Rightarrow>
               (if line_cov < 100 then
                  (case get_uncovered_lines method of
                     Inl e \<Rightarrow> Inl e
                   | Inr uncovered \<Rightarrow>
                       methods_loop pname full_class rest
                         (gaps @ [\<lparr> class_name = full_class,
                                    method_name = Some (get_str method ''name'' @ get_str method ''desc''),
                                    package_name = pname,
                                    line_coverage = line_cov,
                                    branch_coverage = branch_cov,
                                    uncovered_lines = uncovered \<rparr>]))
                else methods_loop pname full_class rest gaps)))"

text \<open>The f-string \<^verbatim>\<open>f"{package_name}.{class_name}".replace("/", ".")\<close>.\<close>

definition full_class_name :: "string \<Rightarrow> string \<Rightarrow> string" where
  "full_class_name pname cname = replace CHR ''/'' CHR ''.'' (pname @ ''.'' @ cname)"

text \<open>The loop over the classes of one package, and the loop over the packages.\<close>

fun classes_loop :: "string \<Rightarrow> element list \<Rightarrow> parse_state \<Rightarrow> error + parse_state" where
  "classes_loop pname [] st = Inr st"
| "classes_loop pname (cls # rest) st =
     (case methods_loop pname (full_class_name pname (get_str cls ''name''))
             (findall_descendants ''method'' cls) (gaps_so_far st) of
        Inl e \<Rightarrow> Inl e
      | Inr gaps \<Rightarrow>
          (case get_coverage_percent cls ''line'' of
             Inl e \<Rightarrow> Inl e
           | Inr class_line \<Rightarrow>
               (case get_coverage_percent cls ''branch'' of
                  Inl e \<Rightarrow> Inl e
                | Inr class_branch \<Rightarrow>
                    classes_loop pname rest
                      \<lparr> gaps_so_far = gaps,
                        total_line = (if class_line > total_line st then class_line else total_line st),
                        total_branch = (if class_branch > total_branch st then class_branch else total_branch st) \<rparr>)))"

fun packages_loop :: "element list \<Rightarrow> parse_state \<Rightarrow> error + parse_state" where
  "packages_loop [] st = Inr st"
| "packages_loop (package # rest) st =
     (case classes_loop (get_str package ''name'') (findall_descendants ''class'' package) st of
        Inl e \<Rightarrow> Inl e
      | Inr st' \<Rightarrow> packages_loop rest st')"

text \<open>
  The loop over \<^verbatim>\<open>root.findall(".//counter")\<close>, which overwrites the two totals at every
  LINE or BRANCH counter with a positive total.
\<close>

fun overall_loop :: "element list \<Rightarrow> rat \<times> rat \<Rightarrow> error + rat \<times> rat" where
  "overall_loop [] totals = Inr totals"
| "overall_loop (counter # rest) (tline, tbranch) =
     (if get_str counter ''type'' = ''LINE'' then
        (case get_int counter ''covered'' of
           Inl e \<Rightarrow> Inl e
         | Inr covered \<Rightarrow>
             (case get_int counter ''missed'' of
                Inl e \<Rightarrow> Inl e
              | Inr missed \<Rightarrow>
                  (let total = covered + missed in
                   if total > 0 then
                     (case truediv covered total of
                        Inl e \<Rightarrow> Inl e
                      | Inr q \<Rightarrow> overall_loop rest (q * 100, tbranch))
                   else overall_loop rest (tline, tbranch))))
      else if get_str counter ''type'' = ''BRANCH'' then
        (case get_int counter ''covered'' of
           Inl e \<Rightarrow> Inl e
         | Inr covered \<Rightarrow>
             (case get_int counter ''missed'' of
                Inl e \<Rightarrow> Inl e
              | Inr missed \<Rightarrow>
                  (let total = covered + missed in
                   if total > 0 then
                     (case truediv covered total of
                        Inl e \<Rightarrow> Inl e
                      | Inr q \<Rightarrow> overall_loop rest (tline, q * 100))
                   else overall_loop rest (tline, tbranch))))
      else overall_loop rest (tline, tbranch))"

text \<open>
  \<^verbatim>\<open>parse_report\<close>, returning a \<^verbatim>\<open>CoverageReport\<close>; \<^verbatim>\<open>list.sort\<close> is stable, as
  \<open>sort_key\<close> is.
\<close>

record coverage_report =
  total_line_coverage :: rat
  total_branch_coverage :: rat
  gaps :: "coverage_gap list"

definition parse_report :: "element \<Rightarrow> error + coverage_report" where
  "parse_report root_element =
     (case packages_loop (findall_descendants ''package'' root_element)
             \<lparr> gaps_so_far = [], total_line = 0, total_branch = 0 \<rparr> of
        Inl e \<Rightarrow> Inl e
      | Inr st \<Rightarrow>
          (case overall_loop (findall_descendants ''counter'' root_element) (total_line st, total_branch st) of
             Inl e \<Rightarrow> Inl e
           | Inr (tline, tbranch) \<Rightarrow>
               Inr \<lparr> total_line_coverage = tline,
                     total_branch_coverage = tbranch,
                     gaps = sort_key line_coverage (gaps_so_far st) \<rparr>))"

section \<open>Definitions that follow the specification\<close>

text \<open>
  The method name as the specification words it: \<open>test\<close>, the bare method name with
  only its first character upper-cased, \<open>_Case\<close> and the index counted from one.
\<close>

definition upper_first :: "string \<Rightarrow> string" where
  "upper_first s = (case s of [] \<Rightarrow> [] | c # cs \<Rightarrow> ascii_upper c # cs)"

definition spec_test_method_name :: "string \<Rightarrow> nat \<Rightarrow> string" where
  "spec_test_method_name sig i =
     ''test'' @ upper_first (takeWhile (\<lambda>c. c \<noteq> CHR ''('') sig) @ ''_Case'' @ str_int (int i + 1)"

text \<open>
  The de-duplication as the specification words it: the names in the order of their
  first occurrence, and for each name the last test that carries it.
\<close>

fun first_occurrences :: "'a list \<Rightarrow> 'a list" where
  "first_occurrences [] = []"
| "first_occurrences (x # xs) = x # filter (\<lambda>y. y \<noteq> x) (first_occurrences xs)"

definition last_named :: "string \<Rightarrow> generated_test list \<Rightarrow> generated_test" where
  "last_named k tests = last (filter (\<lambda>t. test_method_name t = k) tests)"

definition dedup_keep_last :: "generated_test list \<Rightarrow> generated_test list" where
  "dedup_keep_last tests = map (\<lambda>k. last_named k tests) (first_occurrences (map test_method_name tests))"

text \<open>
  Bodies separated by exactly one blank line: every body but the last is followed by the
  end of its line and one empty line.
\<close>

definition blank_line_separated :: "string list \<Rightarrow> string" where
  "blank_line_separated bodies =
     (case bodies of
        [] \<Rightarrow> []
      | b # bs \<Rightarrow> concat (map (\<lambda>x. x @ ''\<newline>\<newline>'') (butlast bodies)) @ last bodies)"

section \<open>Definitions used to state the properties of the parser\<close>

text \<open>
  The counters of kind \<open>K\<close> among the children of a node, the total
  \<open>covered + missed\<close> of a counter (when both attributes are numerals), and the lists of
  counters none of which has a positive total.
\<close>

definition kind_counters :: "element \<Rightarrow> string \<Rightarrow> element list" where
  "kind_counters e K = filter (\<lambda>c. get c ''type'' = Some (py_upper K)) (findall ''counter'' e)"

definition total_of :: "element \<Rightarrow> int option" where
  "total_of c =
     (case get_int c ''covered'' of
        Inl e \<Rightarrow> None
      | Inr covered \<Rightarrow> (case get_int c ''missed'' of Inl e \<Rightarrow> None | Inr missed \<Rightarrow> Some (covered + missed)))"

definition no_positive_total :: "element list \<Rightarrow> bool" where
  "no_positive_total cs = list_all (\<lambda>c. case total_of c of None \<Rightarrow> False | Some t \<Rightarrow> t \<le> 0) cs"

text \<open>
  The methods that \<^verbatim>\<open>parse_report\<close> visits, each with its package and its class, in the
  order of the three nested loops; the methods of one list of classes; the methods
  whose own line coverage is below 100; and the gap that the loop body builds for a
  visited method.
\<close>

definition class_visits :: "element list \<Rightarrow> (element \<times> element) list" where
  "class_visits cs = concat (map (\<lambda>cls. map (Pair cls) (findall_descendants ''method'' cls)) cs)"

definition gap_of :: "string \<Rightarrow> string \<Rightarrow> element \<Rightarrow> coverage_gap \<Rightarrow> bool" where
  "gap_of pname full_class method g \<longleftrightarrow>
     get_coverage_percent method ''line'' = Inr (line_coverage g) \<and>
     get_coverage_percent method ''branch'' = Inr (branch_coverage g) \<and>
     get_uncovered_lines method = Inr (uncovered_lines g) \<and>
     class_name g = full_class \<and>
     method_name g = Some (get_str method ''name'' @ get_str method ''desc'') \<and>
     package_name g = pname"

definition below_full :: "element \<Rightarrow> bool" where
  "below_full method =
     (case get_coverage_percent method ''line'' of Inl e \<Rightarrow> False | Inr line_cov \<Rightarrow> line_cov < 100)"

definition method_visits :: "element \<Rightarrow> (element \<times> element \<times> element) list" where
  "method_visits root_element =
     concat (map (\<lambda>package.
       concat (map (\<lambda>cls. map (\<lambda>method. (package, cls, method)) (findall_descendants ''method'' cls))
                   (findall_descendants ''class'' package)))
       (findall_descendants ''package'' root_element))"

definition visit_gap :: "element \<times> element \<times> element \<Rightarrow> coverage_gap \<Rightarrow> bool" where
  "visit_gap v g =
     (case v of (package, cls, method) \<Rightarrow>
        gap_of (get_str package ''name'')
          (full_class_name (get_str package ''name'') (get_str cls ''name'')) method g)"

text \<open>
  For the totals: the counters of one type with a positive total, the percentage of a
  counter, the percentage of a node (\<open>0\<close> where it raises), the classes that the loops
  visit, and the last element of a list, or a default for the empty list.
\<close>

definition positive_counters :: "string \<Rightarrow> element list \<Rightarrow> element list" where
  "positive_counters ty cs =
     filter (\<lambda>c. get_str c ''type'' = ty \<and> (case total_of c of None \<Rightarrow> False | Some t \<Rightarrow> 0 < t)) cs"

definition counter_percent :: "element \<Rightarrow> rat" where
  "counter_percent c =
     (case get_int c ''covered'' of
        Inl e \<Rightarrow> 0
      | Inr covered \<Rightarrow>
          (case get_int c ''missed'' of
             Inl e \<Rightarrow> 0
           | Inr missed \<Rightarrow> of_int covered / of_int (covered + missed) * 100))"

definition node_percent :: "string \<Rightarrow> element \<Rightarrow> rat" where
  "node_percent K e = (case get_coverage_percent e K of Inl err \<Rightarrow> 0 | Inr p \<Rightarrow> p)"

definition visited_classes :: "element \<Rightarrow> element list" where
  "visited_classes root_element =
     concat (map (findall_descendants ''class'') (findall_descendants ''package'' root_element))"

definition last_or :: "'a \<Rightarrow> 'a list \<Rightarrow> 'a" where
  "last_or d xs = (case rev xs of [] \<Rightarrow> d | x # _ \<Rightarrow> x)"

section \<open>Example inputs\<close>

text \<open>A gap of a method and a gap without a method name.\<close>

definition example_gap :: coverage_gap where
  "example_gap = \<lparr> class_name = ''com.acme.Widget'', method_name = Some ''getValue()I'',
      package_name = ''com/acme'', line_coverage = 60, branch_coverage = 0, uncovered_lines = [] \<rparr>"

definition class_level_gap :: coverage_gap where
  "class_level_gap = \<lparr> class_name = ''com.acme.Widget'', method_name = None,
      package_name = ''com/acme'', line_coverage = 60, branch_coverage = 0, uncovered_lines = [] \<rparr>"

text \<open>A generated test with a given name and body.\<close>

definition body_test :: "string \<Rightarrow> string \<Rightarrow> generated_test" where
  "body_test name body =
     \<lparr> test_class_name = ''WidgetTest'', test_method_name = name, test_code = body,
       target_class = ''com.acme.Widget'', target_method = Some ''render()V'' \<rparr>"

text \<open>The report of one class with one method and no other counter.\<close>

definition widget_report :: element where
  "widget_report =
     Element ''report'' [(''name'', ''demo'')]
       [Element ''package'' [(''name'', ''com/acme'')]
          [Element ''class'' [(''name'', ''Widget'')]
             [Element ''method'' [(''name'', ''render''), (''desc'', ''()V'')]
                [Element ''counter'' [(''type'', ''LINE''), (''missed'', ''2''), (''covered'', ''3'')] []]]]]"

text \<open>
  A method with counters of two kinds, a method whose LINE counter counts nothing, and a
  report with one fully covered method and three methods with gaps.
\<close>

definition render_method :: element where
  "render_method =
     Element ''method'' [(''name'', ''render''), (''desc'', ''()V'')]
       [Element ''counter'' [(''type'', ''INSTRUCTION''), (''missed'', ''4''), (''covered'', ''9'')] [],
        Element ''counter'' [(''type'', ''LINE''), (''missed'', ''2''), (''covered'', ''3'')] []]"

definition idle_method :: element where
  "idle_method =
     Element ''method'' [(''name'', ''idle''), (''desc'', ''()V'')]
       [Element ''counter'' [(''type'', ''LINE''), (''missed'', ''0''), (''covered'', ''0'')] []]"

definition line_counter :: "string \<Rightarrow> string \<Rightarrow> element" where
  "line_counter missed covered =
     Element ''counter'' [(''type'', ''LINE''), (''missed'', missed), (''covered'', covered)] []"

definition demo_report :: element where
  "demo_report =
     Element ''report'' [(''name'', ''demo'')]
       [Element ''package'' [(''name'', ''com/acme'')]
          [Element ''class'' [(''name'', ''Widget'')]
             [Element ''method'' [(''name'', ''size''), (''desc'', ''()I'')] [line_counter ''0'' ''4''],
              Element ''method'' [(''name'', ''render''), (''desc'', ''()V'')] [line_counter ''2'' ''3''],
              Element ''method'' [(''name'', ''reset''), (''desc'', ''()V'')] [line_counter ''3'' ''0''],
              Element ''method'' [(''name'', ''paint''), (''desc'', ''()V'')] [line_counter ''4'' ''6'']]]]"

section \<open>Properties of the built-ins\<close>

lemmas char_tables = ascii_upper_def ascii_lower_def lower_letters_def upper_letters_def digit_chars_def

lemma split_neq_Nil: "split sep s \<noteq> []"
  by (induction s) (auto split: list.splits)

lemma split_hd: "split sep s = takeWhile (\<lambda>c. c \<noteq> sep) s # tl (split sep s)"
  by (induction s) (auto split: list.splits)

lemma index_first_split: "index_first (split sep s) = Inr (takeWhile (\<lambda>c. c \<noteq> sep) s)"
proof -
  obtain w ws where "split sep s = w # ws" using split_neq_Nil [of sep s] by (cases "split sep s") auto
  moreover from this have "w = takeWhile (\<lambda>c. c \<noteq> sep) s" using split_hd [of sep s] by simp
  ultimately show ?thesis by (simp add: index_first_def)
qed

lemma index_last_split: "index_last (split sep s) = Inr (last (split sep s))"
  using split_neq_Nil [of sep s]
  by (cases "split sep s" rule: rev_cases) (simp_all add: index_last_def)

lemma upt10: "[0 ..< 10] = [0,1,2,3,4,5,6,7,8,9::nat]"
  by (simp add: upt_rec)

lemma digit_value_nth: "k < 10 \<Longrightarrow> digit_value (digit_chars ! k) = Some k"
proof -
  assume "k < 10"
  then have "k \<in> {0,1,2,3,4,5,6,7,8,9}" by auto
  then show ?thesis
    by (auto simp: digit_value_def digit_chars_def upt10)
qed

lemma nat_of_digits_append:
  "nat_of_digits (xs @ ys) acc = nat_of_digits ys (nat_of_digits xs acc)"
  by (induction xs arbitrary: acc) auto

lemma nat_of_digits_of_nat: "nat_of_digits (digits_of_nat n) 0 = n"
proof (induction n rule: digits_of_nat.induct)
  case (1 n)
  show ?case
  proof (cases "n < 10")
    case True
    then show ?thesis by (simp add: digits_of_nat.simps [of n] digit_value_nth)
  next
    case False
    then have "nat_of_digits (digits_of_nat (n div 10)) 0 = n div 10" using 1 by simp
    then show ?thesis using False
      by (simp add: digits_of_nat.simps [of n] nat_of_digits_append digit_value_nth)
  qed
qed

lemma digits_of_nat_inj: "digits_of_nat m = digits_of_nat n \<Longrightarrow> m = n"
  by (metis nat_of_digits_of_nat)

lemma str_int_inj_nonneg: "0 \<le> a \<Longrightarrow> 0 \<le> b \<Longrightarrow> str_int a = str_int b \<Longrightarrow> a = b"
  by (auto simp: str_int_def dest!: digits_of_nat_inj)

section \<open>Properties of the test generator\<close>

lemma get_test_class_name_Inr:
  "get_test_class_name c = Inr (last (split CHR ''.'' c) @ ''Test'')"
  by (simp add: get_test_class_name_def index_last_split)

lemma generate_test_code_Some:
  "method_name gap = Some sig \<Longrightarrow>
   generate_test_code gap i =
     Inr (let m = takeWhile (\<lambda>c. c \<noteq> CHR ''('') sig; c = last (split CHR ''.'' (class_name gap))
          in if i = 0 then template_case1 m c else if i = 1 then template_case2 m c else template_case3 m c)"
  by (simp add: generate_test_code_def index_first_split index_last_split Let_def)

lemma generate_test_code_None:
  "method_name gap = None \<Longrightarrow> generate_test_code gap i = Inl AttributeError"
  by (simp add: generate_test_code_def)

lemma generate_case_None:
  "method_name gap = None \<Longrightarrow> generate_case gap tcn i = Inl AttributeError"
  by (simp add: generate_case_def)

lemma generate_case_Some:
  "method_name gap = Some sig \<Longrightarrow>
   generate_case gap tcn i =
     Inr \<lparr> test_class_name = tcn,
           test_method_name = ''test'' @ capitalize (takeWhile (\<lambda>c. c \<noteq> CHR ''('') sig) @ ''_Case'' @ str_int (int i + 1),
           test_code = (let m = takeWhile (\<lambda>c. c \<noteq> CHR ''('') sig; c = last (split CHR ''.'' (class_name gap))
              in if i = 0 then template_case1 m c else if i = 1 then template_case2 m c else template_case3 m c),
           target_class = class_name gap,
           target_method = Some sig \<rparr>"
  by (simp add: generate_case_def index_first_split generate_test_code_Some)

lemma cases_loop_Some:
  "method_name gap = Some sig \<Longrightarrow>
   \<exists>ts. cases_loop gap tcn ixs acc = Inr (acc @ ts) \<and> length ts = length ixs
      \<and> list_all2 (\<lambda>i t. generate_case gap tcn i = Inr t) ixs ts"
proof (induction ixs arbitrary: acc)
  case Nil
  then show ?case by simp
next
  case (Cons i ixs)
  obtain t where t: "generate_case gap tcn i = Inr t"
    using generate_case_Some [OF Cons.prems] by blast
  from Cons.IH [OF Cons.prems, of "acc @ [t]"]
  obtain ts where "cases_loop gap tcn ixs (acc @ [t]) = Inr ((acc @ [t]) @ ts)"
    "length ts = length ixs" "list_all2 (\<lambda>i t. generate_case gap tcn i = Inr t) ixs ts"
    by blast
  then show ?case using t
    by (intro exI [of _ "t # ts"]) simp
qed

lemma cases_loop_None:
  "method_name gap = None \<Longrightarrow> ixs \<noteq> [] \<Longrightarrow> cases_loop gap tcn ixs acc = Inl AttributeError"
  by (cases ixs) (simp_all add: generate_case_None)

lemma generate_tests_for_method_Some:
  "method_name gap = Some sig \<Longrightarrow>
   \<exists>ts. generate_tests_for_method gap n = Inr ts \<and> length ts = nat n
      \<and> list_all2 (\<lambda>i t. generate_case gap (last (split CHR ''.'' (class_name gap)) @ ''Test'') i = Inr t) [0 ..< nat n] ts"
  using cases_loop_Some [of gap sig "last (split CHR ''.'' (class_name gap)) @ ''Test''" "[0 ..< nat n]" "[]"]
  by (auto simp: generate_tests_for_method_def get_test_class_name_Inr)

lemma generate_tests_for_method_le0:
  "n \<le> 0 \<Longrightarrow> generate_tests_for_method gap n = Inr []"
  by (simp add: generate_tests_for_method_def get_test_class_name_Inr)

lemma generate_tests_for_method_None:
  "method_name gap = None \<Longrightarrow> 0 < n \<Longrightarrow> generate_tests_for_method gap n = Inl AttributeError"
  by (simp add: generate_tests_for_method_def get_test_class_name_Inr cases_loop_None)

lemma generate_tests_for_method_returns:
  "n \<le> 0 \<or> method_name g \<noteq> None \<Longrightarrow>
   \<exists>ts. generate_tests_for_method g n = Inr ts \<and> length ts = nat n"
proof (cases "n \<le> 0")
  case True
  then show ?thesis by (simp add: generate_tests_for_method_le0)
next
  case False
  moreover assume "n \<le> 0 \<or> method_name g \<noteq> None"
  ultimately obtain sig where "method_name g = Some sig" by auto
  from generate_tests_for_method_Some [OF this, of n] show ?thesis by blast
qed

lemma gaps_loop_named:
  "n \<le> 0 \<or> (\<forall>g \<in> set gs. method_name g \<noteq> None) \<Longrightarrow>
   \<exists>tss. gaps_loop gs n acc = Inr (acc @ concat tss)
      \<and> list_all2 (\<lambda>g ts. generate_tests_for_method g n = Inr ts \<and> length ts = nat n) gs tss"
proof (induction gs arbitrary: acc)
  case Nil
  then show ?case by simp
next
  case (Cons g gs)
  then have "n \<le> 0 \<or> method_name g \<noteq> None" by auto
  from generate_tests_for_method_returns [OF this]
  obtain ts where ts: "generate_tests_for_method g n = Inr ts" "length ts = nat n" by blast
  from Cons.prems have "n \<le> 0 \<or> (\<forall>g \<in> set gs. method_name g \<noteq> None)" by auto
  from Cons.IH [OF this, of "acc @ ts"]
  obtain tss where "gaps_loop gs n (acc @ ts) = Inr ((acc @ ts) @ concat tss)"
     "list_all2 (\<lambda>g ts. generate_tests_for_method g n = Inr ts \<and> length ts = nat n) gs tss"
    by blast
  then show ?case using ts
    by (intro exI [of _ "ts # tss"]) simp
qed

lemma length_concat_const:
  "\<forall>ts \<in> set tss. length ts = k \<Longrightarrow> length (concat tss) = length tss * k"
  by (induction tss) auto

lemma gaps_loop_le0: "n \<le> 0 \<Longrightarrow> gaps_loop gs n acc = Inr acc"
  by (induction gs arbitrary: acc) (simp_all add: generate_tests_for_method_le0)

subsection \<open>Names of the generated tests\<close>

text \<open>
  Claim C2, as stated: the test method name is \<open>test\<close>, then the bare method name with
  only its first character upper-cased and the others unchanged, then \<open>_Case\<close> and the
  index counted from one. It fails for the method \<open>getValue\<close>: \<^verbatim>\<open>capitalize\<close> lower-cases
  every character after the first, so the name is \<open>testGetvalue_Case1\<close>, not
  \<open>testGetValue_Case1\<close>.
\<close>

theorem test_method_name_counterexample:
  "map_sum id test_method_name (generate_case example_gap ''WidgetTest'' 0)
     = Inr ''testGetvalue_Case1''
   \<and> spec_test_method_name ''getValue()I'' 0 = ''testGetValue_Case1''
   \<and> map_sum id test_method_name (generate_case example_gap ''WidgetTest'' 0)
     \<noteq> Inr (spec_test_method_name ''getValue()I'' 0)"
  by (simp add: generate_case_Some [of _ "''getValue()I''"] example_gap_def spec_test_method_name_def
      upper_first_def capitalize_def char_tables str_int_def digits_of_nat.simps)

text \<open>
  Claim C2, amended: for a gap with a method signature and every index \<open>i\<close> below the
  number of cases, the name of the \<open>i\<close>-th generated test is \<open>test\<close>, then the bare
  method name (the signature cut at its first opening parenthesis) with its first
  character upper-cased and all the others lower-cased, then \<open>_Case\<close> and the decimal
  numeral of \<open>i + 1\<close>.
\<close>

theorem test_method_name_format:
  assumes "method_name gap = Some sig"
  shows "\<exists>ts. generate_tests_for_method gap n = Inr ts \<and> length ts = nat n \<and>
     (\<forall>i < nat n. test_method_name (ts ! i) =
        ''test'' @ (case takeWhile (\<lambda>c. c \<noteq> CHR ''('') sig of [] \<Rightarrow> [] | c # cs \<Rightarrow> ascii_upper c # map ascii_lower cs)
          @ ''_Case'' @ str_int (int i + 1))"
proof -
  from generate_tests_for_method_Some [OF assms, of n]
  obtain ts where ts: "generate_tests_for_method gap n = Inr ts" "length ts = nat n"
    "list_all2 (\<lambda>i t. generate_case gap (last (split CHR ''.'' (class_name gap)) @ ''Test'') i = Inr t) [0 ..< nat n] ts"
    by blast
  have "test_method_name (ts ! i) =
        ''test'' @ (case takeWhile (\<lambda>c. c \<noteq> CHR ''('') sig of [] \<Rightarrow> [] | c # cs \<Rightarrow> ascii_upper c # map ascii_lower cs)
          @ ''_Case'' @ str_int (int i + 1)" if "i < nat n" for i
  proof -
    from ts(3) that have "generate_case gap (last (split CHR ''.'' (class_name gap)) @ ''Test'') ([0 ..< nat n] ! i) = Inr (ts ! i)"
      by (simp add: list_all2_conv_all_nth)
    with that have "ts ! i = \<lparr> test_class_name = last (split CHR ''.'' (class_name gap)) @ ''Test'',
           test_method_name = ''test'' @ capitalize (takeWhile (\<lambda>c. c \<noteq> CHR ''('') sig) @ ''_Case'' @ str_int (int i + 1),
           test_code = (let m = takeWhile (\<lambda>c. c \<noteq> CHR ''('') sig; c = last (split CHR ''.'' (class_name gap))
              in if i = 0 then template_case1 m c else if i = 1 then template_case2 m c else template_case3 m c),
           target_class = class_name gap,
           target_method = Some sig \<rparr>"
      by (simp add: generate_case_Some [OF assms])
    then show ?thesis
      by (simp add: capitalize_def)
  qed
  with ts show ?thesis by blast
qed

theorem test_method_name_format_witness:
  "\<exists>ts. generate_tests_for_method example_gap 2 = Inr ts \<and> map test_method_name ts = [''testGetvalue_Case1'', ''testGetvalue_Case2'']"
proof -
  have m: "method_name example_gap = Some ''getValue()I''" by (simp add: example_gap_def)
  from test_method_name_format [OF m, of 2]
  obtain ts where ts: "generate_tests_for_method example_gap 2 = Inr ts" "length ts = 2" 
    "\<forall>i < nat 2. test_method_name (ts ! i) =
        ''test'' @ (case takeWhile (\<lambda>c. c \<noteq> CHR ''('') ''getValue()I'' of [] \<Rightarrow> [] | c # cs \<Rightarrow> ascii_upper c # map ascii_lower cs)
          @ ''_Case'' @ str_int (int i + 1)"
    by auto
  from ts(3) have "test_method_name (ts ! 0) = ''testGetvalue_Case1''" "test_method_name (ts ! 1) = ''testGetvalue_Case2''"
    by (simp_all add: char_tables str_int_def digits_of_nat.simps)
  moreover from ts(2) obtain a b where "ts = [a, b]"
    by (metis One_nat_def Suc_1 length_0_conv length_Suc_conv)
  ultimately show ?thesis using ts(1) by simp
qed

subsection \<open>The cap on the gaps\<close>

text \<open>
  When no case is asked for, or the first ten gaps carry a method signature,
  \<open>generate_tests\<close> looks at the first ten gaps only, in their order, and returns the
  tests of each of them one after the other: \<open>min 10 (length gs) * n\<close> tests in all.
\<close>

lemma generate_tests_cap:
  assumes "0 \<le> n" and "n = 0 \<or> (\<forall>g \<in> set (take 10 gs). method_name g \<noteq> None)"
  shows "generate_tests gs n = generate_tests (take 10 gs) n \<and>
    (\<exists>tss. generate_tests gs n = Inr (concat tss) \<and>
       list_all2 (\<lambda>g ts. generate_tests_for_method g n = Inr ts) (take 10 gs) tss \<and>
       length (concat tss) = min 10 (length gs) * nat n)"
proof -
  from assms(2) have "n \<le> 0 \<or> (\<forall>g \<in> set (take 10 gs). method_name g \<noteq> None)" by auto
  from gaps_loop_named [OF this, of "[]"]
  obtain tss where tss: "gaps_loop (take 10 gs) n [] = Inr (concat tss)"
    "list_all2 (\<lambda>g ts. generate_tests_for_method g n = Inr ts \<and> length ts = nat n) (take 10 gs) tss"
    by auto
  from tss(2) have len: "length tss = min 10 (length gs)"
    by (auto dest: list_all2_lengthD)
  from tss(2) have "\<forall>ts \<in> set tss. length ts = nat n"
    by (induction rule: list_all2_induct) auto
  then have "length (concat tss) = min 10 (length gs) * nat n"
    using len length_concat_const [of tss "nat n"] by simp
  moreover from tss(2) have "list_all2 (\<lambda>g ts. generate_tests_for_method g n = Inr ts) (take 10 gs) tss"
    by (rule list_all2_mono) simp
  ultimately show ?thesis using tss(1)
    by (auto simp: generate_tests_def)
qed

lemma generate_tests_cap_example:
  "0 \<le> (2::int) \<and>
   map method_name (take 10 (replicate 12 example_gap)) = replicate 10 (Some ''getValue()I'') \<and>
   generate_tests (replicate 12 example_gap) 2 = generate_tests (replicate 10 example_gap) 2 \<and>
   (\<exists>ts. generate_tests (replicate 12 example_gap) 2 = Inr ts \<and> length ts = 20)"
proof -
  have h: "\<forall>g \<in> set (take 10 (replicate 12 example_gap)). method_name g \<noteq> None"
    by (simp add: example_gap_def)
  from generate_tests_cap [of 2 "replicate 12 example_gap", OF _ disjI2, OF _ h]
  obtain tss where c: "generate_tests (replicate 12 example_gap) 2 = generate_tests (take 10 (replicate 12 example_gap)) 2"
    "generate_tests (replicate 12 example_gap) 2 = Inr (concat tss)"
    "length (concat tss) = min 10 (length (replicate 12 example_gap)) * nat 2"
    by auto
  from c(2,3) have "\<exists>ts. generate_tests (replicate 12 example_gap) 2 = Inr ts \<and> length ts = 20"
    by (intro exI [of _ "concat tss"]) simp
  moreover from c(1) have "generate_tests (replicate 12 example_gap) 2 = generate_tests (replicate 10 example_gap) 2"
    by simp
  ultimately show ?thesis by (simp add: example_gap_def)
qed

subsection \<open>A gap without a method name\<close>

text \<open>
  Claim C7 says that generation never raises, also for a gap whose method signature is
  absent. On the gap \<open>class_level_gap\<close>, whose \<open>method_name\<close> is \<open>None\<close>, and one case per
  gap, the code raises AttributeError.
\<close>

theorem generate_tests_absent_method:
  "generate_tests [class_level_gap] 1 = Inl AttributeError"
  by (simp add: generate_tests_def generate_tests_for_method_None class_level_gap_def)

text \<open>
  The generator raises exactly when at least one case is asked for and one of the first
  ten gaps has no method name; without gaps, or without cases, the result is empty.
\<close>

lemma gaps_loop_unnamed:
  "\<exists>g \<in> set gs. method_name g = None \<Longrightarrow> 0 < n \<Longrightarrow> gaps_loop gs n acc = Inl AttributeError"
proof (induction gs arbitrary: acc)
  case Nil
  then show ?case by simp
next
  case (Cons g gs)
  show ?case
  proof (cases "method_name g")
    case None
    with Cons.prems show ?thesis by (simp add: generate_tests_for_method_None)
  next
    case (Some sig)
    from generate_tests_for_method_Some [OF Some, of n]
    obtain ts where "generate_tests_for_method g n = Inr ts" by blast
    moreover from Cons.prems Some have "\<exists>g \<in> set gs. method_name g = None" by auto
    ultimately show ?thesis using Cons.IH Cons.prems(2) by simp
  qed
qed

lemma generate_tests_raises_iff:
  "generate_tests gs n = Inl AttributeError \<longleftrightarrow> 0 < n \<and> (\<exists>g \<in> set (take 10 gs). method_name g = None)"
proof (cases "0 < n \<and> (\<exists>g \<in> set (take 10 gs). method_name g = None)")
  case True
  then show ?thesis by (simp add: generate_tests_def gaps_loop_unnamed)
next
  case False
  then consider "n \<le> 0" | "\<forall>g \<in> set (take 10 gs). method_name g \<noteq> None" by fastforce
  then have "\<exists>ts. generate_tests gs n = Inr ts"
  proof cases
    case 1
    then show ?thesis by (simp add: generate_tests_def gaps_loop_le0)
  next
    case 2
    then have "n \<le> 0 \<or> (\<forall>g \<in> set (take 10 gs). method_name g \<noteq> None)" by simp
    from gaps_loop_named [OF this, of "[]"] show ?thesis by (auto simp: generate_tests_def)
  qed
  with False show ?thesis by auto
qed

lemma generate_tests_degenerate:
  "generate_tests [] n = Inr []" "n \<le> 0 \<Longrightarrow> generate_tests gs n = Inr []"
  by (simp_all add: generate_tests_def gaps_loop_le0)

text \<open>
  Claim C4 says that for every list of gaps and every count of cases \<open>n \<ge> 0\<close> the
  generator returns \<open>min 10 (length gs) * n\<close> tests. For the two gaps \<open>example_gap\<close> and
  \<open>class_level_gap\<close> and two cases per gap that number is 4, but the code raises
  AttributeError at the gap without a method name and returns no test.
\<close>

theorem generate_tests_count_absent_method:
  "generate_tests [example_gap, class_level_gap] 2 = Inl AttributeError
   \<and> min 10 (length [example_gap, class_level_gap]) * nat 2 = 4"
proof -
  have "\<exists>g \<in> set [example_gap, class_level_gap]. method_name g = None"
    by (simp add: class_level_gap_def)
  from gaps_loop_unnamed [OF this, of 2 "[]"] show ?thesis
    by (simp add: generate_tests_def del: gaps_loop.simps)
qed

subsection \<open>The assembled document\<close>

lemma set_first_occurrences: "set (first_occurrences xs) = set xs"
  by (induction xs) auto

lemma distinct_first_occurrences: "distinct (first_occurrences xs)"
  by (induction xs) (auto simp: set_first_occurrences)

lemma first_occurrences_snoc:
  "first_occurrences (xs @ [x]) = (if x \<in> set xs then first_occurrences xs else first_occurrences xs @ [x])"
  by (induction xs) auto

lemma dict_set_map:
  "distinct ks \<Longrightarrow>
   dict_set (map (\<lambda>k. (k, f k)) ks) k0 v =
     (if k0 \<in> set ks then map (\<lambda>k. (k, if k = k0 then v else f k)) ks
      else map (\<lambda>k. (k, f k)) ks @ [(k0, v)])"
  by (induction ks) auto

lemma last_named_snoc:
  "last_named k (ts @ [t]) = (if test_method_name t = k then t else last_named k ts)"
  by (simp add: last_named_def)

lemma unique_tests_snoc:
  "unique_tests (ts @ [t]) = dict_set (unique_tests ts) (test_method_name t) t"
  by (simp add: unique_tests_def)

lemma unique_tests_eq:
  "unique_tests tests =
     map (\<lambda>k. (k, last_named k tests)) (first_occurrences (map test_method_name tests))"
proof (induction tests rule: rev_induct)
  case Nil
  then show ?case by (simp add: unique_tests_def)
next
  case (snoc t ts)
  let ?ks = "first_occurrences (map test_method_name ts)"
  have d: "distinct ?ks" by (rule distinct_first_occurrences)
  have s: "set ?ks = test_method_name ` set ts" by (simp add: set_first_occurrences)
  show ?case
  proof (cases "test_method_name t \<in> test_method_name ` set ts")
    case True
    then show ?thesis
      using dict_set_map [OF d, of "\<lambda>k. last_named k ts" "test_method_name t" t] s
      by (auto simp: unique_tests_snoc snoc.IH first_occurrences_snoc last_named_snoc)
  next
    case False
    then show ?thesis
      using dict_set_map [OF d, of "\<lambda>k. last_named k ts" "test_method_name t" t] s
      by (auto simp: unique_tests_snoc snoc.IH first_occurrences_snoc last_named_snoc)
  qed
qed

lemma join_blank_line_separated: "join ''\<newline>\<newline>'' xs = blank_line_separated xs"
  by (induction "''\<newline>\<newline>''" xs rule: join.induct) (simp_all add: blank_line_separated_def)

text \<open>
  Claim C8: \<open>format_test_file\<close> keeps, for every test method name, the last test that
  carries it, lists the kept tests in the order in which their names first occur, and
  writes their bodies, separated by exactly one blank line, into the fixed document: the
  package line, the four imports, the class line, the field, the set-up method, the
  bodies and the closing brace. For no tests at all the document is the same text with
  nothing where the bodies stand; when the class and package names have no braces it has
  two opening and two closing braces.
\<close>

theorem format_test_file_dedup:
  "format_test_file tcn pkg tests =
     ''package '' @ pkg @ ''.test;\<newline>'' @
     ''\<newline>'' @
     ''import org.junit.jupiter.api.Test;\<newline>'' @
     ''import org.junit.jupiter.api.BeforeEach;\<newline>'' @
     ''import static org.junit.jupiter.api.Assertions.*;\<newline>'' @
     ''import '' @ pkg @ ''.*;\<newline>'' @
     ''\<newline>'' @
     ''public class '' @ tcn @ '' {\<newline>'' @
     ''    \<newline>'' @
     ''    private Object instance;\<newline>'' @
     ''    \<newline>'' @
     ''    @BeforeEach\<newline>'' @
     ''    public void setUp() {\<newline>'' @
     ''        // Initialize test fixtures\<newline>'' @
     ''    }\<newline>'' @
     ''    \<newline>'' @
     blank_line_separated (map test_code (dedup_keep_last tests)) @
     ''\<newline>'' @
     ''}\<newline>''
   \<and> format_test_file tcn pkg [] =
     ''package '' @ pkg @ ''.test;\<newline>'' @
     ''\<newline>'' @
     ''import org.junit.jupiter.api.Test;\<newline>'' @
     ''import org.junit.jupiter.api.BeforeEach;\<newline>'' @
     ''import static org.junit.jupiter.api.Assertions.*;\<newline>'' @
     ''import '' @ pkg @ ''.*;\<newline>'' @
     ''\<newline>'' @
     ''public class '' @ tcn @ '' {\<newline>'' @
     ''    \<newline>'' @
     ''    private Object instance;\<newline>'' @
     ''    \<newline>'' @
     ''    @BeforeEach\<newline>'' @
     ''    public void setUp() {\<newline>'' @
     ''        // Initialize test fixtures\<newline>'' @
     ''    }\<newline>'' @
     ''    \<newline>'' @
     ''\<newline>'' @
     ''}\<newline>''
   \<and> (CHR ''{'' \<notin> set (tcn @ pkg) \<and> CHR ''}'' \<notin> set (tcn @ pkg) \<longrightarrow>
        count_list (format_test_file tcn pkg []) CHR ''{'' = 2 \<and>
        count_list (format_test_file tcn pkg []) CHR ''}'' = 2)"
proof -
  have d: "map (\<lambda>(k, t). test_code t) (unique_tests tests) = map test_code (dedup_keep_last tests)"
    by (simp add: unique_tests_eq dedup_keep_last_def comp_def)
  have a: "format_test_file tcn pkg tests =
     file_header tcn pkg @ blank_line_separated (map test_code (dedup_keep_last tests)) @ file_footer"
    by (simp add: format_test_file_def d join_blank_line_separated)
  have e: "format_test_file tcn pkg [] = file_header tcn pkg @ file_footer"
    by (simp add: format_test_file_def unique_tests_def)
  have c: "count_list (format_test_file tcn pkg []) CHR ''{'' = 2 \<and>
        count_list (format_test_file tcn pkg []) CHR ''}'' = 2"
    if "CHR ''{'' \<notin> set (tcn @ pkg) \<and> CHR ''}'' \<notin> set (tcn @ pkg)"
  proof -
    from that have "count_list tcn CHR ''{'' = 0" "count_list pkg CHR ''{'' = 0"
       "count_list tcn CHR ''}'' = 0" "count_list pkg CHR ''}'' = 0"
      by (simp_all add: count_list_0_iff)
    then show ?thesis
      by (simp add: e file_header_def file_footer_def)
  qed
  from a e c show ?thesis
    by (simp add: file_header_def file_footer_def)
qed

theorem format_test_file_dedup_witness:
  "format_test_file ''WidgetTest'' ''com.acme''
     [body_test ''testRender_Case1'' ''A'', body_test ''testPaint_Case1'' ''B'', body_test ''testRender_Case1'' ''C'']
   = ''package com.acme.test;\<newline>\<newline>import org.junit.jupiter.api.Test;\<newline>import org.junit.jupiter.api.BeforeEach;\<newline>import static org.junit.jupiter.api.Assertions.*;\<newline>import com.acme.*;\<newline>\<newline>public class WidgetTest {\<newline>    \<newline>    private Object instance;\<newline>    \<newline>    @BeforeEach\<newline>    public void setUp() {\<newline>        // Initialize test fixtures\<newline>    }\<newline>    \<newline>C\<newline>\<newline>B\<newline>}\<newline>''
   \<and> count_list (format_test_file ''WidgetTest'' ''com.acme'' []) CHR ''{'' = 2
   \<and> count_list (format_test_file ''WidgetTest'' ''com.acme'' []) CHR ''}'' = 2"
  using format_test_file_dedup [of "''WidgetTest''" "''com.acme''"
     "[body_test ''testRender_Case1'' ''A'', body_test ''testPaint_Case1'' ''B'', body_test ''testRender_Case1'' ''C'']"]
  by (simp add: dedup_keep_last_def last_named_def body_test_def blank_line_separated_def)

subsection \<open>The third template\<close>

text \<open>
  Claim C10: for one gap, all indices from 2 on give the same body, which is the third
  template with the method name \<open>test<Name>Case3\<close> in it; that name is never the test
  method name of the entry, which has \<open>_Case\<close> in its place. Two entries of the same gap
  at indices from 2 on are equal in every field but the test method name, and that name
  is different at different indices.
\<close>

theorem case3_bodies_identical:
  assumes "2 \<le> i" and "2 \<le> j"
    and "generate_case gap tcn i = Inr t" and "generate_case gap tcn j = Inr u"
  shows "generate_test_code gap i = generate_test_code gap j
    \<and> test_code t = test_code u
    \<and> u = t\<lparr>test_method_name := test_method_name u\<rparr>
    \<and> (i \<noteq> j \<longrightarrow> test_method_name t \<noteq> test_method_name u)
    \<and> (\<exists>sig rest. method_name gap = Some sig \<and>
          test_code t = ''    @Test\<newline>    public void test'' @ capitalize (takeWhile (\<lambda>c. c \<noteq> CHR ''('') sig)
             @ ''Case3() {\<newline>'' @ rest \<and>
          test_method_name t \<noteq> ''test'' @ capitalize (takeWhile (\<lambda>c. c \<noteq> CHR ''('') sig) @ ''Case3'')"
proof -
  from assms(3) obtain sig where sig: "method_name gap = Some sig"
    by (cases "method_name gap") (auto simp: generate_case_None)
  note gi = generate_case_Some [OF sig, of tcn i] and gj = generate_case_Some [OF sig, of tcn j]
  from assms(1,2) have ne: "i \<noteq> 0" "i \<noteq> 1" "j \<noteq> 0" "j \<noteq> 1" by auto
  have t: "t = \<lparr> test_class_name = tcn,
           test_method_name = ''test'' @ capitalize (takeWhile (\<lambda>c. c \<noteq> CHR ''('') sig) @ ''_Case'' @ str_int (int i + 1),
           test_code = template_case3 (takeWhile (\<lambda>c. c \<noteq> CHR ''('') sig) (last (split CHR ''.'' (class_name gap))),
           target_class = class_name gap, target_method = Some sig \<rparr>"
    using assms(3) gi ne by simp
  have u: "u = \<lparr> test_class_name = tcn,
           test_method_name = ''test'' @ capitalize (takeWhile (\<lambda>c. c \<noteq> CHR ''('') sig) @ ''_Case'' @ str_int (int j + 1),
           test_code = template_case3 (takeWhile (\<lambda>c. c \<noteq> CHR ''('') sig) (last (split CHR ''.'' (class_name gap))),
           target_class = class_name gap, target_method = Some sig \<rparr>"
    using assms(4) gj ne by simp
  have c1: "generate_test_code gap i = generate_test_code gap j"
    using ne by (simp add: generate_test_code_Some [OF sig])
  have c4: "i \<noteq> j \<longrightarrow> test_method_name t \<noteq> test_method_name u"
    using str_int_inj_nonneg [of "int i + 1" "int j + 1"] by (auto simp: t u)
  have c5: "\<exists>rest. test_code t = ''    @Test\<newline>    public void test'' @ capitalize (takeWhile (\<lambda>c. c \<noteq> CHR ''('') sig)
             @ ''Case3() {\<newline>'' @ rest"
    by (simp add: t template_case3_def)
  have c6: "test_method_name t \<noteq> ''test'' @ capitalize (takeWhile (\<lambda>c. c \<noteq> CHR ''('') sig) @ ''Case3''"
    by (simp add: t)
  show ?thesis using c1 c4 c5 c6 sig by (simp add: t u)
qed

theorem case3_bodies_identical_witness:
  "\<exists>t u. generate_case example_gap ''WidgetTest'' 2 = Inr t \<and>
         generate_case example_gap ''WidgetTest'' 5 = Inr u \<and>
         test_code t = test_code u \<and> u = t\<lparr>test_method_name := test_method_name u\<rparr> \<and>
         test_method_name t \<noteq> test_method_name u"
proof -
  have m: "method_name example_gap = Some ''getValue()I''"
    by (simp add: example_gap_def)
  obtain t where t: "generate_case example_gap ''WidgetTest'' 2 = Inr t"
    using generate_case_Some [OF m] by blast
  obtain u where u: "generate_case example_gap ''WidgetTest'' 5 = Inr u"
    using generate_case_Some [OF m] by blast
  from case3_bodies_identical [OF _ _ t u] t u show ?thesis by simp
qed

section \<open>Properties of the report parser\<close>

subsection \<open>The percentage of a node\<close>

lemma counters_loop_filter:
  "counters_loop cs ty = counters_loop (filter (\<lambda>c. get c ''type'' = Some ty) cs) ty"
  by (induction cs) (auto split: sum.splits simp: Let_def)

lemma counters_loop_skip:
  "no_positive_total pre \<Longrightarrow> list_all (\<lambda>c. get c ''type'' = Some ty) pre \<Longrightarrow>
   counters_loop (pre @ rest) ty = counters_loop rest ty"
  by (induction pre) (auto simp: no_positive_total_def total_of_def split: sum.splits option.splits)

lemma counters_loop_hit:
  "get c ''type'' = Some ty \<Longrightarrow> get_int c ''covered'' = Inr cv \<Longrightarrow> get_int c ''missed'' = Inr ms \<Longrightarrow>
   0 < cv + ms \<Longrightarrow> counters_loop (c # rest) ty = Inr (of_int cv / of_int (cv + ms) * 100)"
  by (simp add: truediv_def)

lemma py_int_error: "py_int s = Inl e \<Longrightarrow> e = ValueError"
  by (auto simp: py_int_def Let_def split: prod.splits option.splits)

lemma get_int_error: "get_int c key = Inl e \<Longrightarrow> e = ValueError"
  by (auto simp: get_int_def split: option.splits dest: py_int_error)

lemma counters_loop_error: "counters_loop cs ty = Inl e \<Longrightarrow> e = ValueError"
  by (induction cs) (auto simp: Let_def truediv_def split: sum.splits if_splits dest: get_int_error)

text \<open>
  Claim C6: for a node and a kind \<open>K\<close>, the percentage is \<open>0\<close> when the node has no
  counter of kind \<open>K\<close>; it is \<open>covered / (covered + missed) * 100\<close> for the first counter
  of kind \<open>K\<close> whose total is positive (the counters of that kind before it having no
  positive total); it is \<open>0\<close> when no counter of kind \<open>K\<close> has a positive total, so also
  when \<open>covered + missed = 0\<close>; and it is never a division error.
\<close>

theorem coverage_percent_formula:
  "(kind_counters e K = [] \<longrightarrow> get_coverage_percent e K = Inr 0)
   \<and> (\<forall>pre c post cv ms.
         kind_counters e K = pre @ c # post \<and> no_positive_total pre \<and>
         get_int c ''covered'' = Inr cv \<and> get_int c ''missed'' = Inr ms \<and> 0 < cv + ms
         \<longrightarrow> get_coverage_percent e K = Inr (of_int cv / of_int (cv + ms) * 100))
   \<and> (no_positive_total (kind_counters e K) \<longrightarrow> get_coverage_percent e K = Inr 0)
   \<and> get_coverage_percent e K \<noteq> Inl ZeroDivisionError"
proof -
  let ?ty = "py_upper K"
  have eq: "get_coverage_percent e K = counters_loop (kind_counters e K) ?ty"
    unfolding get_coverage_percent_def kind_counters_def by (rule counters_loop_filter)
  have typed: "list_all (\<lambda>c. get c ''type'' = Some ?ty) (kind_counters e K)"
    by (simp add: kind_counters_def list_all_iff)
  have a: "kind_counters e K = [] \<longrightarrow> get_coverage_percent e K = Inr 0"
    by (simp add: eq)
  have b: "get_coverage_percent e K = Inr (of_int cv / of_int (cv + ms) * 100)"
    if "kind_counters e K = pre @ c # post" "no_positive_total pre"
       "get_int c ''covered'' = Inr cv" "get_int c ''missed'' = Inr ms" "0 < cv + ms"
    for pre c post cv ms
  proof -
    from typed that(1) have "list_all (\<lambda>c. get c ''type'' = Some ?ty) pre" "get c ''type'' = Some ?ty"
      by simp_all
    then show ?thesis
      using that by (simp add: eq counters_loop_skip counters_loop_hit del: counters_loop.simps)
  qed
  have c: "no_positive_total (kind_counters e K) \<longrightarrow> get_coverage_percent e K = Inr 0"
    using counters_loop_skip [of "kind_counters e K" ?ty "[]"] typed by (simp add: eq)
  have d: "get_coverage_percent e K \<noteq> Inl ZeroDivisionError"
    using counters_loop_error [of "kind_counters e K" ?ty ZeroDivisionError] by (auto simp: eq)
  from a b c d show ?thesis by blast
qed

lemmas element_eval = findall_def get_int_def get_str_def get_def py_int_def strip_def
  whitespace_chars_def parse_unsigned_def digit_value_def upt10 py_upper_def char_tables

theorem coverage_percent_formula_witness:
  "get_coverage_percent render_method ''line'' = Inr 60
   \<and> get_coverage_percent render_method ''branch'' = Inr 0
   \<and> get_coverage_percent idle_method ''line'' = Inr 0"
proof -
  have k1: "kind_counters render_method ''line'' =
      [] @ Element ''counter'' [(''type'', ''LINE''), (''missed'', ''2''), (''covered'', ''3'')] [] # []"
    by (simp add: kind_counters_def render_method_def element_eval)
  have k2: "kind_counters render_method ''branch'' = []"
    by (simp add: kind_counters_def render_method_def element_eval)
  have k3: "no_positive_total (kind_counters idle_method ''line'')"
    by (simp add: kind_counters_def idle_method_def no_positive_total_def total_of_def element_eval)
  have c: "get_int (Element ''counter'' [(''type'', ''LINE''), (''missed'', ''2''), (''covered'', ''3'')] []) ''covered'' = Inr 3"
    "get_int (Element ''counter'' [(''type'', ''LINE''), (''missed'', ''2''), (''covered'', ''3'')] []) ''missed'' = Inr 2"
    by (simp_all add: element_eval)
  have e: "no_positive_total []" "(0::int) < 3 + 2" by (simp_all add: no_positive_total_def)
  from coverage_percent_formula [of render_method "''line''"] k1 c e
  have "get_coverage_percent render_method ''line'' = Inr (of_int 3 / of_int (3 + 2) * 100)"
    by blast
  moreover from coverage_percent_formula [of render_method "''branch''"] k2
  have "get_coverage_percent render_method ''branch'' = Inr 0" by blast
  moreover from coverage_percent_formula [of idle_method "''line''"] k3
  have "get_coverage_percent idle_method ''line'' = Inr 0" by blast
  ultimately show ?thesis by simp
qed

subsection \<open>The gaps of a report\<close>

lemma methods_loop_spec:
  "methods_loop pn fc ms acc = Inr out \<Longrightarrow>
   \<exists>new. out = acc @ new \<and> list_all2 (gap_of pn fc) (filter below_full ms) new \<and>
     list_all (\<lambda>m. get_coverage_percent m ''line'' \<noteq> Inl ValueError) ms"
proof (induction ms arbitrary: acc)
  case Nil
  then show ?case by simp
next
  case (Cons m ms)
  from Cons.prems obtain lc where lc: "get_coverage_percent m ''line'' = Inr lc"
    by (cases "get_coverage_percent m ''line''") auto
  from Cons.prems lc obtain bc where bc: "get_coverage_percent m ''branch'' = Inr bc"
    by (cases "get_coverage_percent m ''branch''") auto
  show ?case
  proof (cases "lc < 100")
    case True
    with Cons.prems lc bc obtain ul where ul: "get_uncovered_lines m = Inr ul"
      by (cases "get_uncovered_lines m") auto
    let ?g = "\<lparr> class_name = fc, method_name = Some (get_str m ''name'' @ get_str m ''desc''),
                package_name = pn, line_coverage = lc, branch_coverage = bc, uncovered_lines = ul \<rparr>"
    from Cons.prems lc bc ul True have "methods_loop pn fc ms (acc @ [?g]) = Inr out" by simp
    from Cons.IH [OF this] obtain new where new: "out = (acc @ [?g]) @ new"
      "list_all2 (gap_of pn fc) (filter below_full ms) new"
      "list_all (\<lambda>m. get_coverage_percent m ''line'' \<noteq> Inl ValueError) ms" by blast
    have "gap_of pn fc m ?g" by (simp add: gap_of_def lc bc ul)
    moreover have "below_full m" using True by (simp add: below_full_def lc)
    ultimately show ?thesis using new lc
      by (intro exI [of _ "?g # new"]) simp
  next
    case False
    with Cons.prems lc bc have "methods_loop pn fc ms acc = Inr out" by simp
    from Cons.IH [OF this] obtain new where new: "out = acc @ new"
      "list_all2 (gap_of pn fc) (filter below_full ms) new"
      "list_all (\<lambda>m. get_coverage_percent m ''line'' \<noteq> Inl ValueError) ms" by blast
    moreover have "\<not> below_full m" using False by (simp add: below_full_def lc)
    ultimately show ?thesis using lc
      by (intro exI [of _ new]) simp
  qed
qed

lemma classes_loop_spec:
  "classes_loop pn cs st = Inr st' \<Longrightarrow>
   \<exists>new. gaps_so_far st' = gaps_so_far st @ new \<and>
     list_all2 (\<lambda>(c, m). gap_of pn (full_class_name pn (get_str c ''name'')) m)
        (filter (\<lambda>(c, m). below_full m) (class_visits cs)) new \<and>
     list_all (\<lambda>(c, m). get_coverage_percent m ''line'' \<noteq> Inl ValueError) (class_visits cs)"
proof (induction cs arbitrary: st)
  case Nil
  then show ?case by (simp add: class_visits_def)
next
  case (Cons c cs)
  let ?fc = "full_class_name pn (get_str c ''name'')"
  from Cons.prems obtain gs where gs:
    "methods_loop pn ?fc (findall_descendants ''method'' c) (gaps_so_far st) = Inr gs"
    by (cases "methods_loop pn ?fc (findall_descendants ''method'' c) (gaps_so_far st)") auto
  from Cons.prems gs obtain cl where cl: "get_coverage_percent c ''line'' = Inr cl"
    by (cases "get_coverage_percent c ''line''") auto
  from Cons.prems gs cl obtain cb where cb: "get_coverage_percent c ''branch'' = Inr cb"
    by (cases "get_coverage_percent c ''branch''") auto
  let ?st = "\<lparr> gaps_so_far = gs,
               total_line = (if cl > total_line st then cl else total_line st),
               total_branch = (if cb > total_branch st then cb else total_branch st) \<rparr>"
  from Cons.prems gs cl cb have "classes_loop pn cs ?st = Inr st'" by simp
  from Cons.IH [OF this] obtain new2 where new2: "gaps_so_far st' = gs @ new2"
    "list_all2 (\<lambda>(c, m). gap_of pn (full_class_name pn (get_str c ''name'')) m)
        (filter (\<lambda>(c, m). below_full m) (class_visits cs)) new2"
    "list_all (\<lambda>(c, m). get_coverage_percent m ''line'' \<noteq> Inl ValueError) (class_visits cs)"
    by auto
  from methods_loop_spec [OF gs] obtain new1 where new1: "gs = gaps_so_far st @ new1"
    "list_all2 (gap_of pn ?fc) (filter below_full (findall_descendants ''method'' c)) new1"
    "list_all (\<lambda>m. get_coverage_percent m ''line'' \<noteq> Inl ValueError) (findall_descendants ''method'' c)"
    by blast
  have f: "filter (\<lambda>(c, m). below_full m) (class_visits (c # cs)) =
      map (Pair c) (filter below_full (findall_descendants ''method'' c)) @
      filter (\<lambda>(c, m). below_full m) (class_visits cs)"
    by (simp add: class_visits_def filter_map comp_def)
  have "list_all2 (\<lambda>(c, m). gap_of pn (full_class_name pn (get_str c ''name'')) m)
      (map (Pair c) (filter below_full (findall_descendants ''method'' c))) new1"
    using new1(2) by (simp add: list_all2_map1)
  from this new2(2) have "list_all2 (\<lambda>(c, m). gap_of pn (full_class_name pn (get_str c ''name'')) m)
      (filter (\<lambda>(c, m). below_full m) (class_visits (c # cs))) (new1 @ new2)"
    unfolding f by (rule list_all2_appendI)
  moreover have "list_all (\<lambda>(c, m). get_coverage_percent m ''line'' \<noteq> Inl ValueError) (class_visits (c # cs))"
    using new1(3) new2(3) by (auto simp: class_visits_def list_all_iff)
  ultimately show ?case using new1(1) new2(1)
    by (intro exI [of _ "new1 @ new2"]) simp
qed

lemma packages_loop_spec:
  "packages_loop ps st = Inr st' \<Longrightarrow>
   \<exists>new. gaps_so_far st' = gaps_so_far st @ new \<and>
     list_all2 visit_gap
        (filter (\<lambda>(p, c, m). below_full m)
           (concat (map (\<lambda>p. map (Pair p) (class_visits (findall_descendants ''class'' p))) ps))) new \<and>
     list_all (\<lambda>(p, c, m). get_coverage_percent m ''line'' \<noteq> Inl ValueError)
        (concat (map (\<lambda>p. map (Pair p) (class_visits (findall_descendants ''class'' p))) ps))"
proof (induction ps arbitrary: st)
  case Nil
  then show ?case by simp
next
  case (Cons p ps)
  let ?pn = "get_str p ''name''"
  let ?V = "\<lambda>ps. concat (map (\<lambda>p. map (Pair p) (class_visits (findall_descendants ''class'' p))) ps)"
  from Cons.prems obtain st1 where st1:
    "classes_loop ?pn (findall_descendants ''class'' p) st = Inr st1"
    by (cases "classes_loop ?pn (findall_descendants ''class'' p) st") auto
  with Cons.prems have "packages_loop ps st1 = Inr st'" by simp
  from Cons.IH [OF this] obtain new2 where new2: "gaps_so_far st' = gaps_so_far st1 @ new2"
    "list_all2 visit_gap (filter (\<lambda>(p, c, m). below_full m) (?V ps)) new2"
    "list_all (\<lambda>(p, c, m). get_coverage_percent m ''line'' \<noteq> Inl ValueError) (?V ps)"
    by blast
  from classes_loop_spec [OF st1] obtain new1 where new1: "gaps_so_far st1 = gaps_so_far st @ new1"
    "list_all2 (\<lambda>(c, m). gap_of ?pn (full_class_name ?pn (get_str c ''name'')) m)
        (filter (\<lambda>(c, m). below_full m) (class_visits (findall_descendants ''class'' p))) new1"
    "list_all (\<lambda>(c, m). get_coverage_percent m ''line'' \<noteq> Inl ValueError) (class_visits (findall_descendants ''class'' p))"
    by blast
  have f: "filter (\<lambda>(p, c, m). below_full m) (?V (p # ps)) =
      map (Pair p) (filter (\<lambda>(c, m). below_full m) (class_visits (findall_descendants ''class'' p))) @
      filter (\<lambda>(p, c, m). below_full m) (?V ps)"
    by (simp add: filter_map comp_def)
  have "list_all2 visit_gap
      (map (Pair p) (filter (\<lambda>(c, m). below_full m) (class_visits (findall_descendants ''class'' p)))) new1"
    using new1(2) by (simp add: list_all2_map1 visit_gap_def case_prod_unfold)
  from this new2(2) have "list_all2 visit_gap (filter (\<lambda>(p, c, m). below_full m) (?V (p # ps))) (new1 @ new2)"
    unfolding f by (rule list_all2_appendI)
  moreover have "list_all (\<lambda>(p, c, m). get_coverage_percent m ''line'' \<noteq> Inl ValueError) (?V (p # ps))"
    using new1(3) new2(3) by (auto simp: list_all_iff)
  ultimately show ?case using new1(1) new2(1)
    by (intro exI [of _ "new1 @ new2"]) simp
qed

lemma method_visits_eq:
  "method_visits r =
     concat (map (\<lambda>p. map (Pair p) (class_visits (findall_descendants ''class'' p)))
        (findall_descendants ''package'' r))"
  by (simp add: method_visits_def class_visits_def map_concat comp_def)

lemma parse_report_gaps:
  assumes "parse_report r = Inr rep"
  shows "\<exists>found. gaps rep = sort_key line_coverage found \<and>
     list_all2 visit_gap (filter (\<lambda>(p, c, m). below_full m) (method_visits r)) found \<and>
     list_all (\<lambda>(p, c, m). get_coverage_percent m ''line'' \<noteq> Inl ValueError) (method_visits r)"
proof -
  from assms obtain st where st: "packages_loop (findall_descendants ''package'' r)
      \<lparr> gaps_so_far = [], total_line = 0, total_branch = 0 \<rparr> = Inr st"
    by (auto simp: parse_report_def split: sum.splits)
  with assms have "gaps rep = sort_key line_coverage (gaps_so_far st)"
    by (auto simp: parse_report_def split: sum.splits prod.splits)
  with packages_loop_spec [OF st] show ?thesis
    by (auto simp: method_visits_eq)
qed

lemma get_coverage_percent_error: "get_coverage_percent m K = Inl e \<Longrightarrow> e = ValueError"
  unfolding get_coverage_percent_def by (rule counters_loop_error)

lemma list_all2_in_left: "list_all2 P xs ys \<Longrightarrow> x \<in> set xs \<Longrightarrow> \<exists>y \<in> set ys. P x y"
  by (induction rule: list_all2_induct) auto

lemma list_all2_in_right: "list_all2 P xs ys \<Longrightarrow> y \<in> set ys \<Longrightarrow> \<exists>x \<in> set xs. P x y"
  by (induction rule: list_all2_induct) auto

lemma visit_gap_line:
  "visit_gap (p, c, m) g \<Longrightarrow> get_coverage_percent m ''line'' = Inr (line_coverage g)"
  by (simp add: visit_gap_def gap_of_def)

lemma demo_report_parsed:
  "parse_report demo_report =
     Inr \<lparr> total_line_coverage = 60, total_branch_coverage = 0,
           gaps = [\<lparr> class_name = ''com.acme.Widget'', method_name = Some ''reset()V'',
                     package_name = ''com/acme'', line_coverage = 0, branch_coverage = 0,
                     uncovered_lines = [] \<rparr>,
                   \<lparr> class_name = ''com.acme.Widget'', method_name = Some ''render()V'',
                     package_name = ''com/acme'', line_coverage = 60, branch_coverage = 0,
                     uncovered_lines = [] \<rparr>,
                   \<lparr> class_name = ''com.acme.Widget'', method_name = Some ''paint()V'',
                     package_name = ''com/acme'', line_coverage = 60, branch_coverage = 0,
                     uncovered_lines = [] \<rparr>] \<rparr>"
  by code_simp

text \<open>
  Claim C3: in a parsed report, every visited method has a line coverage, and a gap
  built from that visit is among the gaps if and only if this line coverage is below
  100; every gap of the report has a line coverage below 100 and is built from a visited
  method; and there are as many gaps as visits of methods below 100.
\<close>

theorem gap_membership:
  assumes "parse_report r = Inr rep"
  shows "(\<forall>v \<in> set (method_visits r). \<exists>line_cov.
            get_coverage_percent (snd (snd v)) ''line'' = Inr line_cov \<and>
            ((\<exists>g \<in> set (gaps rep). visit_gap v g) \<longleftrightarrow> line_cov < 100))
       \<and> (\<forall>g \<in> set (gaps rep). line_coverage g < 100 \<and> (\<exists>v \<in> set (method_visits r). visit_gap v g))
       \<and> length (gaps rep) = length (filter (\<lambda>(p, c, m). below_full m) (method_visits r))"
proof -
  let ?F = "filter (\<lambda>(p, c, m). below_full m) (method_visits r)"
  from parse_report_gaps [OF assms] obtain found where
    g: "gaps rep = sort_key line_coverage found" and
    l2: "list_all2 visit_gap ?F found" and
    ok: "list_all (\<lambda>(p, c, m). get_coverage_percent m ''line'' \<noteq> Inl ValueError) (method_visits r)"
    by blast
  have s: "set (gaps rep) = set found" by (simp add: g)
  have below: "line_coverage g < 100 \<and> (\<exists>v \<in> set (method_visits r). visit_gap v g)"
    if "g \<in> set found" for g
  proof -
    from list_all2_in_right [OF l2 that] obtain v where v: "v \<in> set ?F" "visit_gap v g" by blast
    obtain p c m where pcm: "v = (p, c, m)" by (cases v) auto
    with v have "below_full m" "get_coverage_percent m ''line'' = Inr (line_coverage g)"
      by (auto dest: visit_gap_line)
    then have "line_coverage g < 100" by (simp add: below_full_def)
    with v show ?thesis by auto
  qed
  have a: "\<exists>line_cov. get_coverage_percent (snd (snd v)) ''line'' = Inr line_cov \<and>
            ((\<exists>g \<in> set (gaps rep). visit_gap v g) \<longleftrightarrow> line_cov < 100)"
    if "v \<in> set (method_visits r)" for v
  proof -
    obtain p c m where pcm: "v = (p, c, m)" by (cases v) auto
    from ok that pcm have "get_coverage_percent m ''line'' \<noteq> Inl ValueError"
      by (auto simp: list_all_iff)
    then obtain lc where lc: "get_coverage_percent m ''line'' = Inr lc"
      by (cases "get_coverage_percent m ''line''") (auto dest: get_coverage_percent_error)
    have "(\<exists>g \<in> set found. visit_gap v g) \<longleftrightarrow> lc < 100"
    proof
      assume "\<exists>g \<in> set found. visit_gap v g"
      then obtain g where gg: "g \<in> set found" "visit_gap v g" by blast
      from gg(2) pcm lc have "line_coverage g = lc" by (auto dest: visit_gap_line)
      with below [OF gg(1)] show "lc < 100" by simp
    next
      assume "lc < 100"
      then have "below_full m" by (simp add: below_full_def lc)
      with that pcm have "v \<in> set ?F" by simp
      from list_all2_in_left [OF l2 this] show "\<exists>g \<in> set found. visit_gap v g" .
    qed
    with lc pcm s show ?thesis by simp
  qed
  have c: "length (gaps rep) = length ?F"
    using list_all2_lengthD [OF l2] by (simp add: g)
  from a below c s show ?thesis by blast
qed

theorem gap_membership_witness:
  "\<exists>rep. parse_report demo_report = Inr rep \<and>
     map method_name (gaps rep) = [Some ''reset()V'', Some ''render()V'', Some ''paint()V''] \<and>
     list_all (\<lambda>g. line_coverage g < 100) (gaps rep) \<and>
     length (filter (\<lambda>(p, c, m). below_full m) (method_visits demo_report)) = 3"
proof -
  from gap_membership [OF demo_report_parsed]
  show ?thesis
    by (simp add: demo_report_parsed list_all_iff)
qed

text \<open>
  Claim C5: the gaps of a parsed report are in non-decreasing order of line coverage, and
  for every value of the line coverage the gaps with that value stand in the order in
  which the traversal (packages, then classes, then methods) found them.
\<close>

theorem gaps_sorted_stable:
  assumes "parse_report r = Inr rep"
  shows "sorted (map line_coverage (gaps rep)) \<and>
     (\<exists>found. list_all2 visit_gap (filter (\<lambda>(p, c, m). below_full m) (method_visits r)) found \<and>
        (\<forall>k. filter (\<lambda>g. line_coverage g = k) (gaps rep) = filter (\<lambda>g. line_coverage g = k) found))"
proof -
  from parse_report_gaps [OF assms] obtain found where
    g: "gaps rep = sort_key line_coverage found" and
    l2: "list_all2 visit_gap (filter (\<lambda>(p, c, m). below_full m) (method_visits r)) found"
    by blast
  have "sorted (map line_coverage (gaps rep))" by (simp add: g)
  moreover have "\<forall>k. filter (\<lambda>g. line_coverage g = k) (gaps rep) = filter (\<lambda>g. line_coverage g = k) found"
    by (simp add: g sort_key_stable)
  ultimately show ?thesis using l2 by blast
qed

theorem gaps_sorted_stable_witness:
  "\<exists>rep. parse_report demo_report = Inr rep \<and>
     sorted (map line_coverage (gaps rep)) \<and>
     map line_coverage (gaps rep) = [0, 60, 60] \<and>
     map method_name (gaps rep) = [Some ''reset()V'', Some ''render()V'', Some ''paint()V'']"
proof -
  from gaps_sorted_stable [OF demo_report_parsed]
  show ?thesis
    by (simp add: demo_report_parsed)
qed

subsection \<open>The totals of a report\<close>

text \<open>
  What the code computes: each total is the percentage of the last counter of its type
  with a positive total among all the counters of the report, at any depth and in
  document order; without such a counter it is the largest percentage of a visited
  class, or \<open>0\<close>.
\<close>

lemma last_or_simps [simp]:
  "last_or d [] = d" "last_or d (xs @ [x]) = x"
  by (simp_all add: last_or_def)

lemma last_or_Cons: "last_or d (x # xs) = last_or x xs"
  by (induction xs rule: rev_induct) (simp_all add: last_or_def)

lemma overall_loop_spec:
  "overall_loop cs (tline, tbranch) = Inr (tline', tbranch') \<Longrightarrow>
   tline' = last_or tline (map counter_percent (positive_counters ''LINE'' cs)) \<and>
   tbranch' = last_or tbranch (map counter_percent (positive_counters ''BRANCH'' cs))"
proof (induction cs arbitrary: tline tbranch)
  case Nil
  then show ?case by (simp add: positive_counters_def)
next
  case (Cons c cs)
  show ?case
  proof (cases "get_str c ''type'' = ''LINE'' \<or> get_str c ''type'' = ''BRANCH''")
    case False
    with Cons.prems have "overall_loop cs (tline, tbranch) = Inr (tline', tbranch')" by simp
    from Cons.IH [OF this] False show ?thesis by (simp add: positive_counters_def)
  next
    case True
    from True Cons.prems obtain cv where cv: "get_int c ''covered'' = Inr cv"
      by (cases "get_int c ''covered''") auto
    from True Cons.prems cv obtain ms where ms: "get_int c ''missed'' = Inr ms"
      by (cases "get_int c ''missed''") auto
    have tot: "total_of c = Some (cv + ms)" by (simp add: total_of_def cv ms)
    have pct: "counter_percent c = of_int cv / of_int (cv + ms) * 100"
      by (simp add: counter_percent_def cv ms)
    show ?thesis
    proof (cases "0 < cv + ms")
      case False
      with True Cons.prems cv ms have "overall_loop cs (tline, tbranch) = Inr (tline', tbranch')"
        by (auto split: if_splits)
      from Cons.IH [OF this] False tot show ?thesis by (simp add: positive_counters_def)
    next
      case pos: True
      show ?thesis
      proof (cases "get_str c ''type'' = ''LINE''")
        case True
        with Cons.prems cv ms pos
        have "overall_loop cs (of_int cv / of_int (cv + ms) * 100, tbranch) = Inr (tline', tbranch')"
          by (simp add: truediv_def)
        from Cons.IH [OF this] True pos tot pct show ?thesis
          by (simp add: positive_counters_def last_or_Cons)
      next
        case False
        with True have b: "get_str c ''type'' = ''BRANCH''" by simp
        with False Cons.prems cv ms pos
        have "overall_loop cs (tline, of_int cv / of_int (cv + ms) * 100) = Inr (tline', tbranch')"
          by (simp add: truediv_def)
        from Cons.IH [OF this] False b pos tot pct show ?thesis
          by (simp add: positive_counters_def last_or_Cons)
      qed
    qed
  qed
qed

lemma classes_loop_totals:
  "classes_loop pn cs st = Inr st' \<Longrightarrow>
   total_line st' = foldl max (total_line st) (map (node_percent ''line'') cs) \<and>
   total_branch st' = foldl max (total_branch st) (map (node_percent ''branch'') cs)"
proof (induction cs arbitrary: st)
  case Nil
  then show ?case by simp
next
  case (Cons c cs)
  let ?fc = "full_class_name pn (get_str c ''name'')"
  from Cons.prems obtain gs where gs:
    "methods_loop pn ?fc (findall_descendants ''method'' c) (gaps_so_far st) = Inr gs"
    by (cases "methods_loop pn ?fc (findall_descendants ''method'' c) (gaps_so_far st)") auto
  from Cons.prems gs obtain cl where cl: "get_coverage_percent c ''line'' = Inr cl"
    by (cases "get_coverage_percent c ''line''") auto
  from Cons.prems gs cl obtain cb where cb: "get_coverage_percent c ''branch'' = Inr cb"
    by (cases "get_coverage_percent c ''branch''") auto
  let ?st = "\<lparr> gaps_so_far = gs,
               total_line = (if cl > total_line st then cl else total_line st),
               total_branch = (if cb > total_branch st then cb else total_branch st) \<rparr>"
  from Cons.prems gs cl cb have "classes_loop pn cs ?st = Inr st'" by simp
  from Cons.IH [OF this] show ?case
    by (simp add: node_percent_def cl cb max_def not_less)
qed

lemma packages_loop_totals:
  "packages_loop ps st = Inr st' \<Longrightarrow>
   total_line st' = foldl max (total_line st)
       (map (node_percent ''line'') (concat (map (findall_descendants ''class'') ps))) \<and>
   total_branch st' = foldl max (total_branch st)
       (map (node_percent ''branch'') (concat (map (findall_descendants ''class'') ps)))"
proof (induction ps arbitrary: st)
  case Nil
  then show ?case by simp
next
  case (Cons p ps)
  from Cons.prems obtain st1 where st1:
    "classes_loop (get_str p ''name'') (findall_descendants ''class'' p) st = Inr st1"
    by (cases "classes_loop (get_str p ''name'') (findall_descendants ''class'' p) st") auto
  with Cons.prems have "packages_loop ps st1 = Inr st'" by simp
  from Cons.IH [OF this] classes_loop_totals [OF st1] show ?case by simp
qed

lemma parse_report_totals:
  assumes "parse_report r = Inr rep"
  shows "total_line_coverage rep =
           last_or (foldl max 0 (map (node_percent ''line'') (visited_classes r)))
             (map counter_percent (positive_counters ''LINE'' (findall_descendants ''counter'' r)))"
    and "total_branch_coverage rep =
           last_or (foldl max 0 (map (node_percent ''branch'') (visited_classes r)))
             (map counter_percent (positive_counters ''BRANCH'' (findall_descendants ''counter'' r)))"
proof -
  from assms obtain st where st: "packages_loop (findall_descendants ''package'' r)
      \<lparr> gaps_so_far = [], total_line = 0, total_branch = 0 \<rparr> = Inr st"
    by (auto simp: parse_report_def split: sum.splits)
  with assms have o: "overall_loop (findall_descendants ''counter'' r) (total_line st, total_branch st)
      = Inr (total_line_coverage rep, total_branch_coverage rep)"
    by (auto simp: parse_report_def split: sum.splits prod.splits)
  from overall_loop_spec [OF o] packages_loop_totals [OF st]
  show "total_line_coverage rep =
           last_or (foldl max 0 (map (node_percent ''line'') (visited_classes r)))
             (map counter_percent (positive_counters ''LINE'' (findall_descendants ''counter'' r)))"
    and "total_branch_coverage rep =
           last_or (foldl max 0 (map (node_percent ''branch'') (visited_classes r)))
             (map counter_percent (positive_counters ''BRANCH'' (findall_descendants ''counter'' r)))"
    by (simp_all add: visited_classes_def)
qed

text \<open>
  Claim C1 says that the total line coverage is the largest percentage of a class unless
  the report has counters at its top level. The report \<open>widget_report\<close> has no counter at
  its top level and its only class has the percentage \<open>0\<close>, but the total is \<open>60\<close>: the
  search \<^verbatim>\<open>.//counter\<close> reaches the LINE counter of the method.
\<close>

theorem totals_from_nested_counter:
  "map_sum id total_line_coverage (parse_report widget_report) = Inr 60
   \<and> findall ''counter'' widget_report = []
   \<and> map (\<lambda>cls. get_coverage_percent cls ''line'')
       (concat (map (findall_descendants ''class'') (findall_descendants ''package'' widget_report))) = [Inr 0]"
  by code_simp

subsection \<open>The package name of a gap\<close>

text \<open>
  Claim C9 says that the package name of a gap is dotted. For the package \<open>com/acme\<close> of
  \<open>widget_report\<close> the gap keeps \<open>com/acme\<close>; only the class name is rewritten.
\<close>

theorem package_name_not_dotted:
  "map_sum id (\<lambda>rep. map package_name (gaps rep)) (parse_report widget_report) = Inr [''com/acme'']
   \<and> map_sum id (\<lambda>rep. map class_name (gaps rep)) (parse_report widget_report) = Inr [''com.acme.Widget'']"
  by code_simp


end
